theory Spec2Isabelle
  imports Complex_Main
begin

section \<open>Python strings\<close>

text \<open>
  A Python \<open>str\<close> is modelled as a \<open>string\<close>: a list of characters, one \<open>char\<close> for each
  code point below 256.  The white space of \<open>str.strip\<close>, \<open>str.isspace\<close> and of the
  regular-expression class \<open>\s\<close> is, in that range, the set of code points
  9-13, 28-32, 133 and 160.
\<close>

definition isspace :: "char \<Rightarrow> bool" where
  "isspace c =
     (let n = (of_char c :: nat)
      in (9 \<le> n \<and> n \<le> 13) \<or> (28 \<le> n \<and> n \<le> 32) \<or> n = 133 \<or> n = 160)"

definition lstrip :: "string \<Rightarrow> string" where
  "lstrip s = dropWhile isspace s"

definition rstrip :: "string \<Rightarrow> string" where
  "rstrip s = rev (dropWhile isspace (rev s))"

text \<open>\<open>s.strip()\<close>\<close>

definition strip :: "string \<Rightarrow> string" where
  "strip s = rstrip (lstrip s)"

text \<open>\<open>s.startswith(p)\<close>\<close>

definition startswith :: "string \<Rightarrow> string \<Rightarrow> bool" where
  "startswith s p = (take (length p) s = p)"

text \<open>\<open>s.endswith(p)\<close>\<close>

definition endswith :: "string \<Rightarrow> string \<Rightarrow> bool" where
  "endswith s p = startswith (rev s) (rev p)"

text \<open>\<open>kw in s\<close>, the substring test.\<close>

fun contains :: "string \<Rightarrow> string \<Rightarrow> bool" where
  "contains kw [] = (kw = [])"
| "contains kw (c # cs) = (startswith (c # cs) kw \<or> contains kw cs)"

text \<open>\<open>s[:k]\<close>: a negative bound counts from the end, and the slice never raises.\<close>

definition slice_to :: "'a list \<Rightarrow> int \<Rightarrow> 'a list" where
  "slice_to s k = (if 0 \<le> k then take (nat k) s else take (nat (int (length s) + k)) s)"

text \<open>\<open>sep.join(xs)\<close>\<close>

fun join :: "string \<Rightarrow> string list \<Rightarrow> string" where
  "join sep [] = []"
| "join sep [x] = x"
| "join sep (x # y # ys) = x @ sep @ join sep (y # ys)"

section \<open>Title shortening\<close>

text \<open>
  \<open>re.split(r'[:|]', name)\<close>: the pieces of \<open>name\<close> between the colons and pipes; there is
  always at least one piece.
\<close>

fun re_split_colon_pipe :: "string \<Rightarrow> string list" where
  "re_split_colon_pipe [] = [[]]"
| "re_split_colon_pipe (c # cs) =
     (if c = CHR '':'' \<or> c = CHR ''|'' then [] # re_split_colon_pipe cs
      else (case re_split_colon_pipe cs of
              p # ps \<Rightarrow> (c # p) # ps
            | [] \<Rightarrow> [[c]]))"

text \<open>
  \<open>shorten_anime_name(name, max_length)\<close> of ki.py (rot.py and kot.py have the same body).
\<close>

definition shorten_anime_name :: "string \<Rightarrow> int \<Rightarrow> string" where
  "shorten_anime_name name max_length =
     (if int (length name) \<le> max_length then name
      else
        (let parts = re_split_colon_pipe name;
             shortened_name = strip (case parts of p # _ \<Rightarrow> p | [] \<Rightarrow> []);
             shortened_name =
               (if int (length shortened_name) > max_length
                then slice_to shortened_name (max_length - 3) @ ''...''
                else shortened_name)
         in shortened_name))"

section \<open>Exceptions\<close>

text \<open>
  The exceptions the scripts meet, all of them subclasses of Python's \<open>Exception\<close>.
  \<open>MessageNotModified\<close> and \<open>FloodWait\<close> (with the mandated wait in seconds) are the two
  errors of the chat library that the scripts name.
\<close>

datatype exn =
    ZeroDivisionError
  | OSError
  | TypeError
  | AttributeError
  | ValueError
  | RequestException
  | MessageNotModified
  | FloodWait nat
  | OtherError string

section \<open>Sign-subtitle extraction\<close>

definition backslash :: char where
  "backslash = CHR 0x5C"

definition newline :: char where
  "newline = CHR 0x0A"

text \<open>\<open>line.split(",", maxsplit)\<close>: at most \<open>maxsplit\<close> cuts, from the left.\<close>

fun split_comma :: "nat \<Rightarrow> string \<Rightarrow> string list" where
  "split_comma maxsplit [] = [[]]"
| "split_comma maxsplit (c # cs) =
     (if c = CHR '','' \<and> 0 < maxsplit then [] # split_comma (maxsplit - 1) cs
      else (case split_comma maxsplit cs of
              p # ps \<Rightarrow> (c # p) # ps
            | [] \<Rightarrow> [[c]]))"

definition style_keywords :: "string list" where
  "style_keywords = [''BW Phone Bubble'', ''Text Date'']"

definition effect_text_keywords :: "string list" where
  "effect_text_keywords =
     [backslash # ''an'', backslash # ''fad'', backslash # ''pos'', backslash # ''fs'']"

definition actor_keyword :: string where
  "actor_keyword = ''Sign''"

definition events_format :: string where
  "events_format =
     ''Format: Layer, Start, End, Style, Name, MarginL, MarginR, MarginV, Effect, Text''"

text \<open>The three local variables of the loop of \<open>extract_sign_subtitles\<close>.\<close>

record filter_state =
  in_events :: bool
  header :: "string list"
  sign_lines :: "string list"

text \<open>
  One pass through the body of \<open>for line in lines\<close> (ki.py, lines 200-237).  A line of
  the Events section that is neither a dialogue line nor a section heading matches no
  branch and is left out.
\<close>

definition extract_sign_subtitles_step :: "filter_state \<Rightarrow> string \<Rightarrow> filter_state" where
  "extract_sign_subtitles_step st raw =
     (let line = strip raw in
      if startswith line ''[Events]'' then
        st\<lparr>in_events := True, header := header st @ [line, events_format]\<rparr>
      else if in_events st \<and> startswith line ''Dialogue:'' then
        (let parts = split_comma 9 line in
         if length parts < 10 then st
         else
           (let style = strip (parts ! 3);
                name = strip (parts ! 4);
                effect = strip (parts ! 8);
                text = strip (parts ! 9)
            in if list_ex (\<lambda>keyword. contains keyword style) style_keywords then
                 st\<lparr>sign_lines := sign_lines st @ [line]\<rparr>
               else if list_ex (\<lambda>keyword. contains keyword effect \<or> contains keyword text)
                         effect_text_keywords then
                 st\<lparr>sign_lines := sign_lines st @ [line]\<rparr>
               else if contains actor_keyword name then
                 st\<lparr>sign_lines := sign_lines st @ [line]\<rparr>
               else st))
      else if startswith line ''['' then
        st\<lparr>in_events := False, header := header st @ [line]\<rparr>
      else if \<not> in_events st then
        st\<lparr>header := header st @ [line]\<rparr>
      else st)"

definition extract_sign_subtitles_loop :: "string list \<Rightarrow> filter_state" where
  "extract_sign_subtitles_loop lines =
     foldl extract_sign_subtitles_step \<lparr>in_events = False, header = [], sign_lines = []\<rparr> lines"

text \<open>The text written back to the subtitle file (ki.py, lines 240-243).\<close>

definition rebuilt_ass :: "filter_state \<Rightarrow> string" where
  "rebuilt_ass st =
     join [newline] (header st)
     @ (if sign_lines st \<noteq> [] then [newline] @ join [newline] (sign_lines st) else [])"

text \<open>
  \<open>extract_sign_subtitles\<close>.  The outside world enters as three values: the exit status of
  the extraction tool, what reading the extracted file gives (its lines, as \<open>readlines\<close>
  returns them, or an exception) and whether writing the file back succeeds.  The result
  is \<open>None\<close> where the function returns \<open>False\<close>, and \<open>Some text\<close> where it returns
  \<open>True\<close> having left \<open>text\<close> in the subtitle file.
\<close>

definition extract_sign_subtitles ::
    "int \<Rightarrow> exn + string list \<Rightarrow> exn + unit \<Rightarrow> string option" where
  "extract_sign_subtitles returncode readlines written =
     (if returncode \<noteq> 0 then None
      else (case readlines of
              Inl e \<Rightarrow> None
            | Inr lines \<Rightarrow>
                (case written of
                   Inl e \<Rightarrow> None
                 | Inr _ \<Rightarrow> Some (rebuilt_ass (extract_sign_subtitles_loop lines)))))"

text \<open>
  \<open>os.path.getsize\<close> of a file written as UTF-8 text: one byte for a code point below
  128, two for the others below 256.
\<close>

definition getsize :: "string \<Rightarrow> nat" where
  "getsize text = sum_list (map (\<lambda>c. if (of_char c :: nat) < 128 then 1 else 2) text)"

text \<open>
  The sign-subtitle stage of the task in \<open>download_anime\<close> (ki.py, lines 412-420): what
  happens to the filtered track.
\<close>

datatype sign_stage = Merge_attempted | Discarded | Extraction_failed

definition sign_subtitle_stage ::
    "int \<Rightarrow> exn + string list \<Rightarrow> exn + unit \<Rightarrow> sign_stage" where
  "sign_subtitle_stage returncode readlines written =
     (case extract_sign_subtitles returncode readlines written of
        None \<Rightarrow> Extraction_failed
      | Some text \<Rightarrow> if 0 < getsize text then Merge_attempted else Discarded)"

subsection \<open>Sample cues\<close>

text \<open>
  Four ten-field cues (one for each keep rule and a plain one), a nine-field line, a
  subtitle file without any sign cue and one with three.
\<close>

definition cue_text_date :: string where
  "cue_text_date = ''Dialogue: 0,0:00:01.00,0:00:03.00,Text Date,,0,0,0,,April 5th''"

definition cue_pos :: string where
  "cue_pos = ''Dialogue: 0,0:00:01.00,0:00:03.00,Default,,0,0,0,,{''
              @ backslash # ''pos(320,40)}Station''"

definition cue_narrator :: string where
  "cue_narrator = ''Dialogue: 0,0:00:01.00,0:00:03.00,Default,Sign - Narrator,0,0,0,,Long ago''"

definition cue_plain :: string where
  "cue_plain = ''Dialogue: 0,0:00:01.00,0:00:03.00,Default,Alice,0,0,0,,Good morning.''"


definition ass_without_signs :: "string list" where
  "ass_without_signs =
     [''[Script Info]'' @ [newline], ''[Events]'' @ [newline], cue_plain @ [newline]]"

definition ass_with_signs :: "string list" where
  "ass_with_signs =
     [''[Script Info]'' @ [newline], ''[Events]'' @ [newline], cue_text_date @ [newline],
      cue_plain @ [newline], cue_pos @ [newline], cue_narrator @ [newline]]"

section \<open>Metadata enrichment\<close>

subsection \<open>Library functions on strings and paths\<close>

















subsection \<open>The outside world\<close>





subsection \<open>The functions of ki.py\<close>








subsection \<open>Sample worlds\<close>





section \<open>Progress callback\<close>

text \<open>
  Time stamps (\<open>time.time()\<close>) are real numbers.  A division raises
  \<open>ZeroDivisionError\<close> on a zero divisor, as Python's \<open>/\<close> does.
\<close>

definition truediv :: "real \<Rightarrow> real \<Rightarrow> exn + real" where
  "truediv a b = (if b = 0 then Inl ZeroDivisionError else Inr (a / b))"

text \<open>\<open>int(x)\<close> of a float: truncation towards zero.\<close>

definition py_int :: "real \<Rightarrow> int" where
  "py_int x = (if 0 \<le> x then \<lfloor>x\<rfloor> else \<lceil>x\<rceil>)"

text \<open>The arguments of one call of \<open>progress\<close>, and the clock reading it takes.\<close>

record progress_sample =
  current :: int
  total :: int
  start_time :: real
  current_time :: real

text \<open>The numbers that the status text shows, before they are formatted.\<close>

record status_text =
  progress_percentage :: real
  current_mb :: real
  total_mb :: real
  speed_mb :: real
  eta_seconds :: int
  elapsed_seconds :: int
  progress_blocks :: int
  empty_blocks :: int

text \<open>
  The computation inside the \<open>try\<close> of \<open>progress\<close> (ki.py, lines 328-345), up to the
  call of \<open>edit_text\<close>, in the order in which Python evaluates it.
\<close>

definition progress_status :: "progress_sample \<Rightarrow> exn + status_text" where
  "progress_status s =
     (let elapsed_time = current_time s - start_time s in
      case (if 0 < elapsed_time then truediv (real_of_int (current s)) elapsed_time
            else Inr 0) of
        Inl e \<Rightarrow> Inl e
      | Inr speed \<Rightarrow>
      (case (if 0 < speed then truediv (real_of_int (total s - current s)) speed
             else Inr 0) of
         Inl e \<Rightarrow> Inl e
       | Inr eta \<Rightarrow>
       (case truediv (real_of_int (current s)) (real_of_int (total s)) of
          Inl e \<Rightarrow> Inl e
        | Inr ratio \<Rightarrow>
        (case truediv (real_of_int (20 * current s)) (real_of_int (total s)) of
           Inl e \<Rightarrow> Inl e
         | Inr bar \<Rightarrow>
             Inr \<lparr>progress_percentage = ratio * 100,
                  current_mb = real_of_int (current s) / 1024 ^ 2,
                  total_mb = real_of_int (total s) / 1024 ^ 2,
                  speed_mb = speed / 1024 ^ 2,
                  eta_seconds = py_int eta,
                  elapsed_seconds = py_int elapsed_time,
                  progress_blocks = py_int bar,
                  empty_blocks = 20 - py_int bar\<rparr>))))"

datatype progress_outcome =
    Suppressed
  | Emitted status_text
  | Not_modified
  | Raised exn

text \<open>
  \<open>progress\<close> (ki.py, lines 322-348; rc.py, rot.py and kot.py alike) runs in two
  stretches, with the \<open>await\<close> of \<open>edit_text\<close> (line 337) between them.

  The first stretch (lines 325-337) reads the clock, tests the global
  \<open>last_update_time\<close> and computes the status: the call ends at once when the test
  fails, an exception of the computation leaves the function, and otherwise the
  coroutine awaits \<open>edit_text\<close>.
\<close>

datatype progress_start = Skip | Fails exn | Awaits status_text

definition progress_begin :: "real \<Rightarrow> progress_sample \<Rightarrow> progress_start" where
  "progress_begin previous s =
     (if 2 \<le> current_time s - previous then
        (case progress_status s of
           Inl e \<Rightarrow> Fails e
         | Inr status \<Rightarrow> Awaits status)
      else Skip)"

text \<open>
  The second stretch (lines 337-348) runs when the channel has answered: the clock value
  read in the first stretch is written to \<open>last_update_time\<close> if \<open>edit_text\<close> returned;
  only \<open>MessageNotModified\<close> is caught.  \<open>previous\<close> is the value of the global at that
  moment; the result is the outcome and the new value of the global.
\<close>

definition progress_end ::
    "real \<Rightarrow> progress_sample \<Rightarrow> status_text \<Rightarrow> exn + unit \<Rightarrow> progress_outcome \<times> real" where
  "progress_end previous s status reply =
     (case reply of
        Inr _ \<Rightarrow> (Emitted status, current_time s)
      | Inl e \<Rightarrow>
          if e = MessageNotModified then (Not_modified, previous)
          else (Raised e, previous))"

text \<open>
  A call of \<open>progress\<close> during whose \<open>await\<close> nothing else writes \<open>last_update_time\<close>:
  the global goes in and comes out, and \<open>reply\<close> is the channel's answer.
\<close>

definition progress ::
    "real \<Rightarrow> progress_sample \<Rightarrow> exn + unit \<Rightarrow> progress_outcome \<times> real" where
  "progress previous s reply =
     (case progress_begin previous s of
        Skip \<Rightarrow> (Suppressed, previous)
      | Fails e \<Rightarrow> (Raised e, previous)
      | Awaits status \<Rightarrow> progress_end previous s status reply)"

subsection \<open>Uploads that share the global\<close>

text \<open>
  An upload (a transfer): the call of \<open>progress\<close> that awaits the channel, if any, and the
  clock values of the status texts emitted so far (the value that each emission writes to
  \<open>last_update_time\<close>).
\<close>

record upload =
  pending :: "(progress_sample \<times> status_text) option"
  stamps :: "real list"

text \<open>
  The process: the global \<open>last_update_time\<close>, set when the module is loaded (line 38)
  and written by \<open>progress\<close> alone (line 346), and the uploads, by number.  Starting an
  upload (lines 441-449) reads \<open>start_time\<close> and passes \<open>progress\<close> to \<open>send_document\<close>;
  it writes nothing here.
\<close>

record throttle =
  last_update_time :: real
  uploads :: "nat \<Rightarrow> upload"

text \<open>
  The events: the sending library calls \<open>progress\<close> for upload \<open>i\<close> with a sample, and the
  channel answers the \<open>edit_text\<close> that upload \<open>i\<close> awaits.  Events of different uploads
  may come in any order.  The library awaits the callback before it calls it again for
  the same upload, so a call for an upload that still awaits an answer, and an answer
  that no call awaits, leave the state as it is.
\<close>

datatype progress_event = Call nat progress_sample | Answer nat "exn + unit"

definition call :: "nat \<Rightarrow> progress_sample \<Rightarrow> throttle \<Rightarrow> throttle" where
  "call i s t =
     (case pending (uploads t i) of
        Some p \<Rightarrow> t
      | None \<Rightarrow>
          (case progress_begin (last_update_time t) s of
             Awaits status \<Rightarrow>
               t\<lparr>uploads := (uploads t)(i := (uploads t i)\<lparr>pending := Some (s, status)\<rparr>)\<rparr>
           | Skip \<Rightarrow> t
           | Fails e \<Rightarrow> t))"

definition answer :: "nat \<Rightarrow> exn + unit \<Rightarrow> throttle \<Rightarrow> throttle" where
  "answer i reply t =
     (case pending (uploads t i) of
        None \<Rightarrow> t
      | Some (s, status) \<Rightarrow>
          (case progress_end (last_update_time t) s status reply of
             (Emitted shown, new_time) \<Rightarrow>
               t\<lparr>last_update_time := new_time,
                 uploads := (uploads t)
                   (i := \<lparr>pending = None, stamps = stamps (uploads t i) @ [current_time s]\<rparr>)\<rparr>
           | (outcome, new_time) \<Rightarrow>
               t\<lparr>last_update_time := new_time,
                 uploads := (uploads t)(i := (uploads t i)\<lparr>pending := None\<rparr>)\<rparr>))"

fun progress_events :: "progress_event list \<Rightarrow> throttle \<Rightarrow> throttle" where
  "progress_events [] t = t"
| "progress_events (Call i s # events) t = progress_events events (call i s t)"
| "progress_events (Answer i reply # events) t = progress_events events (answer i reply t)"

text \<open>The events that belong to upload \<open>i\<close> alone.\<close>

fun only_upload :: "nat \<Rightarrow> progress_event list \<Rightarrow> bool" where
  "only_upload i [] = True"
| "only_upload i (Call j s # events) = (j = i \<and> only_upload i events)"
| "only_upload i (Answer j reply # events) = (j = i \<and> only_upload i events)"

text \<open>
  The invariant of an upload \<open>i\<close> that runs alone from the value \<open>g\<close> of the global: its
  emissions are spaced, the global holds the last of them, and a call that awaits its
  answer has passed the test against the global.
\<close>

definition alone :: "nat \<Rightarrow> real \<Rightarrow> throttle \<Rightarrow> bool" where
  "alone i g t =
     (sorted_wrt (\<lambda>a b. 2 \<le> b - a) (stamps (uploads t i))
      \<and> (\<forall>x\<in>set (stamps (uploads t i)). 2 \<le> x - g)
      \<and> last_update_time t = (if stamps (uploads t i) = [] then g else last (stamps (uploads t i)))
      \<and> (\<forall>s status. pending (uploads t i) = Some (s, status)
            \<longrightarrow> 2 \<le> current_time s - last_update_time t))"

subsection \<open>Sample uploads\<close>

text \<open>
  A process in which no upload has begun, with a given value of the global; and a sample
  of an upload of 1000 bytes that started at \<open>started\<close>, taken at \<open>now\<close>.
\<close>

definition idle :: "real \<Rightarrow> throttle" where
  "idle loaded = \<lparr>last_update_time = loaded, uploads = (\<lambda>i. \<lparr>pending = None, stamps = []\<rparr>)\<rparr>"

definition sample_at :: "real \<Rightarrow> real \<Rightarrow> progress_sample" where
  "sample_at started now =
     \<lparr>current = 500, total = 1000, start_time = started, current_time = now\<rparr>"

section \<open>Editing the status message\<close>

text \<open>The status message, with the text it holds (\<open>message.text\<close>, which may be \<open>None\<close>).\<close>

record message =
  message_text :: "string option"

datatype channel_call = Edit_text string | Sleep nat

text \<open>
  \<open>safe_edit_message\<close> of ki.py (lines 350-359; rc.py, rot.py and kot.py have the same
  body).  \<open>first\<close> and \<open>second\<close> are the channel's answers to the first and the second
  \<open>edit_text\<close>.  The result is the list of calls made and whether the function returns or
  raises.
\<close>

definition safe_edit_message ::
    "message \<Rightarrow> string \<Rightarrow> exn + unit \<Rightarrow> exn + unit \<Rightarrow> channel_call list \<times> (exn + unit)" where
  "safe_edit_message msg new_text first second =
     (if message_text msg = Some new_text then ([], Inr ())
      else
        (case first of
           Inr _ \<Rightarrow> ([Edit_text new_text], Inr ())
         | Inl (FloodWait x) \<Rightarrow> ([Edit_text new_text, Sleep x, Edit_text new_text], second)
         | Inl e \<Rightarrow> ([Edit_text new_text], Inl e)))"

text \<open>\<open>safe_edit_message\<close> of bot.py (lines 85-92).\<close>

definition bot_safe_edit_message ::
    "message \<Rightarrow> string \<Rightarrow> exn + unit \<Rightarrow> exn + unit \<Rightarrow> channel_call list \<times> (exn + unit)" where
  "bot_safe_edit_message msg new_text first second =
     (case first of
        Inr _ \<Rightarrow> ([Edit_text new_text], Inr ())
      | Inl (FloodWait x) \<Rightarrow> ([Edit_text new_text, Sleep x, Edit_text new_text], second)
      | Inl e \<Rightarrow> ([Edit_text new_text], Inl e))"

section \<open>Upload\<close>

text \<open>
  What the outside world answers during the upload block of \<open>download_anime\<close> (ki.py,
  lines 432-459): the outcome of each call that can raise, in the order of the code.
\<close>

record upload_world =
  uploading_notice :: "exn + unit"
  getsize_result :: "exn + nat"
  limit_notice :: "exn + unit"
  send_document :: "exn + unit"
  complete_notice :: "exn + unit"
  remove_file :: "exn + unit"
  thumbnail_exists :: bool
  remove_thumbnail :: "exn + unit"

datatype upload_call =
    Announce_uploading
  | Get_size
  | Announce_size_limit
  | Send_document
  | Announce_complete
  | Remove_file
  | Remove_thumbnail
  | Announce_error exn

text \<open>
  The calls that the upload block makes, in order.  An exception raised by a call ends
  the \<open>try\<close> and is announced by the handler; the size test returns from the task
  before \<open>send_document\<close>.
\<close>

definition upload :: "upload_world \<Rightarrow> upload_call list" where
  "upload w =
     (case uploading_notice w of
        Inl e \<Rightarrow> [Announce_uploading, Announce_error e]
      | Inr _ \<Rightarrow>
      (case getsize_result w of
         Inl e \<Rightarrow> [Announce_uploading, Get_size, Announce_error e]
       | Inr nbytes \<Rightarrow>
           if nbytes > 2 * 1024 ^ 3 then
             (case limit_notice w of
                Inl e \<Rightarrow> [Announce_uploading, Get_size, Announce_size_limit, Announce_error e]
              | Inr _ \<Rightarrow> [Announce_uploading, Get_size, Announce_size_limit])
           else
             (case send_document w of
                Inl e \<Rightarrow> [Announce_uploading, Get_size, Send_document, Announce_error e]
              | Inr _ \<Rightarrow>
              (case complete_notice w of
                 Inl e \<Rightarrow>
                   [Announce_uploading, Get_size, Send_document, Announce_complete,
                    Announce_error e]
               | Inr _ \<Rightarrow>
               (case remove_file w of
                  Inl e \<Rightarrow>
                    [Announce_uploading, Get_size, Send_document, Announce_complete,
                     Remove_file, Announce_error e]
                | Inr _ \<Rightarrow>
                    if thumbnail_exists w then
                      (case remove_thumbnail w of
                         Inl e \<Rightarrow>
                           [Announce_uploading, Get_size, Send_document, Announce_complete,
                            Remove_file, Remove_thumbnail, Announce_error e]
                       | Inr _ \<Rightarrow>
                           [Announce_uploading, Get_size, Send_document, Announce_complete,
                            Remove_file, Remove_thumbnail])
                    else
                      [Announce_uploading, Get_size, Send_document, Announce_complete,
                       Remove_file])))))"

text \<open>A world in which every call succeeds, for a file of the given size.\<close>

definition calm_world :: "nat \<Rightarrow> upload_world" where
  "calm_world nbytes =
     \<lparr>uploading_notice = Inr (), getsize_result = Inr nbytes, limit_notice = Inr (),
      send_document = Inr (), complete_notice = Inr (), remove_file = Inr (),
      thumbnail_exists = False, remove_thumbnail = Inr ()\<rparr>"

section \<open>Task queue\<close>

text \<open>
  The scripts run on one event loop: a coroutine runs without interruption until it
  awaits, and \<open>asyncio.create_task\<close> only schedules the new coroutine, which takes its
  first step when the event loop next gives it control.  The model is a transition system
  whose steps are these uninterrupted stretches of code.

  A \<open>process_queue\<close> coroutine is in one of three places: created but not yet run; at
  \<open>await current_task()\<close> (line 297), waiting for the task it popped; or past its
  \<open>break\<close>.
\<close>

datatype 'task drain = Not_started | Awaiting 'task | Finished

text \<open>
  The globals \<open>task_queue\<close> and \<open>current_task\<close>, the \<open>process_queue\<close> coroutines created
  so far, and the tasks whose \<open>await\<close> has returned, in the order in which they did.
\<close>

record 'task scheduler =
  task_queue :: "'task list"
  current_task :: "'task option"
  drains :: "'task drain list"
  completed :: "'task list"

definition initial :: "'task scheduler" where
  "initial = \<lparr>task_queue = [], current_task = None, drains = [], completed = []\<rparr>"

text \<open>
  The end of \<open>download_anime\<close> (ki.py, lines 471-474): the task is appended and, if
  \<open>current_task\<close> is not set, a new \<open>process_queue\<close> coroutine is created.
\<close>

definition submit :: "'task \<Rightarrow> 'task scheduler \<Rightarrow> 'task scheduler" where
  "submit task s =
     (let s = s\<lparr>task_queue := task_queue s @ [task]\<rparr>
      in if current_task s = None then s\<lparr>drains := drains s @ [Not_started]\<rparr> else s)"

text \<open>
  The top of the loop of \<open>process_queue\<close> (lines 290-297) for coroutine \<open>i\<close>: with the
  queue empty it clears \<open>current_task\<close> and leaves the loop; otherwise it pops the head,
  stores it in \<open>current_task\<close> and awaits it.
\<close>

definition pop_next :: "nat \<Rightarrow> 'task scheduler \<Rightarrow> 'task scheduler" where
  "pop_next i s =
     (case task_queue s of
        [] \<Rightarrow> s\<lparr>current_task := None, drains := (drains s)[i := Finished]\<rparr>
      | task # queue \<Rightarrow>
          s\<lparr>task_queue := queue, current_task := Some task,
            drains := (drains s)[i := Awaiting task]\<rparr>)"

text \<open>
  The event loop gives control to coroutine \<open>i\<close>.  A coroutine that has not run yet
  enters the loop.  One that awaits a task is resumed when the task has ended (returned or
  raised; lines 298-301): \<open>current_task\<close> is cleared and the loop goes round without
  awaiting.  The result is \<open>None\<close> if there is no such coroutine to run.
\<close>

definition resume :: "nat \<Rightarrow> 'task scheduler \<Rightarrow> 'task scheduler option" where
  "resume i s =
     (if i < length (drains s) then
        (case drains s ! i of
           Not_started \<Rightarrow> Some (pop_next i s)
         | Awaiting task \<Rightarrow>
             Some (pop_next i (s\<lparr>completed := completed s @ [task], current_task := None\<rparr>))
         | Finished \<Rightarrow> None)
      else None)"

datatype 'task event = Submit 'task | Resume nat

fun run :: "'task event list \<Rightarrow> 'task scheduler \<Rightarrow> 'task scheduler option" where
  "run [] s = Some s"
| "run (Submit task # events) s = run events (submit task s)"
| "run (Resume i # events) s =
     (case resume i s of None \<Rightarrow> None | Some s' \<Rightarrow> run events s')"

text \<open>The tasks that are running: those that some coroutine awaits.\<close>

fun running :: "'task drain list \<Rightarrow> 'task list" where
  "running [] = []"
| "running (Awaiting task # ds) = task # running ds"
| "running (d # ds) = running ds"

text \<open>
  A schedule in which every drain loop takes its first step before the next submission
  arrives: no submission meets a coroutine that has not run yet, and every resumed
  coroutine exists and has not finished.
\<close>

fun well_timed :: "'task event list \<Rightarrow> 'task scheduler \<Rightarrow> bool" where
  "well_timed [] s = True"
| "well_timed (Submit task # events) s =
     (Not_started \<notin> set (drains s) \<and> well_timed events (submit task s))"
| "well_timed (Resume i # events) s =
     (case resume i s of None \<Rightarrow> False | Some s' \<Rightarrow> well_timed events s')"

text \<open>The tasks submitted by a list of events, in order.\<close>

fun submitted :: "'task event list \<Rightarrow> 'task list" where
  "submitted [] = []"
| "submitted (Submit task # events) = task # submitted events"
| "submitted (Resume i # events) = submitted events"

text \<open>The \<open>process_queue\<close> coroutines that have not finished.\<close>

definition active :: "'task drain list \<Rightarrow> 'task drain list" where
  "active ds = filter (\<lambda>d. d \<noteq> Finished) ds"

text \<open>
  The invariant of well-timed schedules, for the tasks \<open>h\<close> submitted so far: no drain
  loop is active and nothing is pending; or one loop is about to start; or one loop
  awaits the task held in \<open>current_task\<close>.
\<close>

definition single_flight :: "'task scheduler \<Rightarrow> 'task list \<Rightarrow> bool" where
  "single_flight s h =
     ((active (drains s) = [] \<and> current_task s = None \<and> task_queue s = [] \<and> completed s = h)
      \<or> (active (drains s) = [Not_started] \<and> current_task s = None
          \<and> completed s @ task_queue s = h)
      \<or> (\<exists>task. active (drains s) = [Awaiting task] \<and> current_task s = Some task
          \<and> completed s @ task # task_queue s = h))"

section \<open>Properties of title shortening\<close>

lemma re_split_colon_pipe_no_separator:
  "CHR '':'' \<notin> set s \<Longrightarrow> CHR ''|'' \<notin> set s \<Longrightarrow> re_split_colon_pipe s = [s]"
  by (induction s) auto

lemma shorten_single_segment:
  assumes "CHR '':'' \<notin> set name" and "CHR ''|'' \<notin> set name"
    and "25 < length name"
  shows "shorten_anime_name name 25 =
           (if 25 < length (strip name) then take 22 (strip name) @ ''...'' else strip name)"
  using assms
  by (simp add: shorten_anime_name_def re_split_colon_pipe_no_separator slice_to_def Let_def)

lemma strip_no_outer_space:
  assumes "s \<noteq> []" and "\<not> isspace (hd s)" and "\<not> isspace (last s)"
  shows "strip s = s"
proof -
  from assms have l: "lstrip s = s"
    by (cases s) (simp_all add: lstrip_def)
  from assms have "dropWhile isspace (rev s) = rev s"
    by (cases "rev s") (simp_all add: hd_rev)
  then show ?thesis
    by (simp add: strip_def rstrip_def l)
qed

text \<open>
  C7, as the claim states it, fails: a title of 40 characters without colon or pipe that
  ends in white space is stripped before its length is tested, and comes back shorter than
  25 characters and without the ellipsis.
\<close>

theorem C7_padded_title_counterexample:
  "length ''Naruto                                  '' = 40
   \<and> CHR '':'' \<notin> set ''Naruto                                  ''
   \<and> CHR ''|'' \<notin> set ''Naruto                                  ''
   \<and> shorten_anime_name ''Naruto                                  '' 25 = ''Naruto''
   \<and> \<not> (length (shorten_anime_name ''Naruto                                  '' 25) = 25
          \<and> endswith (shorten_anime_name ''Naruto                                  '' 25) ''...'')"
  by (simp add: shorten_anime_name_def strip_def lstrip_def rstrip_def isspace_def
      slice_to_def endswith_def startswith_def)

text \<open>
  C7 (amended): with bound 25, \<open>Attack on Titan: Final Season\<close> is shortened to
  \<open>Attack on Titan\<close>; a title of 40 characters without colon or pipe whose stripped form is
  still longer than 25 characters (in particular one that neither begins nor ends with
  white space) yields the first 22 characters of the stripped title followed by \<open>...\<close>,
  which is 25 characters ending in \<open>...\<close>; a title of at most 25 characters is
  returned unchanged.
\<close>

theorem C7_shorten_anime_name:
  "shorten_anime_name ''Attack on Titan: Final Season'' 25 = ''Attack on Titan''
   \<and> (length name = 40 \<and> CHR '':'' \<notin> set name \<and> CHR ''|'' \<notin> set name
        \<and> 25 < length (strip name)
      \<longrightarrow> shorten_anime_name name 25 = take 22 (strip name) @ ''...''
          \<and> length (shorten_anime_name name 25) = 25
          \<and> endswith (shorten_anime_name name 25) ''...'')
   \<and> (length name = 40 \<and> CHR '':'' \<notin> set name \<and> CHR ''|'' \<notin> set name
        \<and> \<not> isspace (hd name) \<and> \<not> isspace (last name)
      \<longrightarrow> length (shorten_anime_name name 25) = 25
          \<and> endswith (shorten_anime_name name 25) ''...'')
   \<and> (length short \<le> 25 \<longrightarrow> shorten_anime_name short 25 = short)"
proof (intro conjI impI)
  show "shorten_anime_name ''Attack on Titan: Final Season'' 25 = ''Attack on Titan''"
    by (simp add: shorten_anime_name_def strip_def lstrip_def rstrip_def isspace_def)
next
  assume a: "length name = 40 \<and> CHR '':'' \<notin> set name \<and> CHR ''|'' \<notin> set name
        \<and> 25 < length (strip name)"
  then show r: "shorten_anime_name name 25 = take 22 (strip name) @ ''...''"
    by (simp add: shorten_single_segment)
  from a show "length (shorten_anime_name name 25) = 25"
    by (simp add: r)
  from a show "endswith (shorten_anime_name name 25) ''...''"
    by (simp add: r endswith_def startswith_def)
next
  assume a: "length name = 40 \<and> CHR '':'' \<notin> set name \<and> CHR ''|'' \<notin> set name
        \<and> \<not> isspace (hd name) \<and> \<not> isspace (last name)"
  then have "name \<noteq> []" by auto
  with a have s: "strip name = name"
    by (simp add: strip_no_outer_space)
  with a have r: "shorten_anime_name name 25 = take 22 name @ ''...''"
    by (simp add: shorten_single_segment)
  from a show "length (shorten_anime_name name 25) = 25"
    by (simp add: r)
  from a show "endswith (shorten_anime_name name 25) ''...''"
    by (simp add: r endswith_def startswith_def)
next
  assume "length short \<le> 25"
  then show "shorten_anime_name short 25 = short"
    by (simp add: shorten_anime_name_def)
qed

theorem C7_shorten_anime_name_witness:
  "length ''Fullmetal Alchemist Brotherhood Specials'' = 40
   \<and> CHR '':'' \<notin> set ''Fullmetal Alchemist Brotherhood Specials''
   \<and> CHR ''|'' \<notin> set ''Fullmetal Alchemist Brotherhood Specials''
   \<and> 25 < length (strip ''Fullmetal Alchemist Brotherhood Specials'')
   \<and> \<not> isspace (hd ''Fullmetal Alchemist Brotherhood Specials'')
   \<and> \<not> isspace (last ''Fullmetal Alchemist Brotherhood Specials'')
   \<and> shorten_anime_name ''Fullmetal Alchemist Brotherhood Specials'' 25
       = ''Fullmetal Alchemist Br...''
   \<and> length (shorten_anime_name ''Fullmetal Alchemist Brotherhood Specials'' 25) = 25
   \<and> endswith (shorten_anime_name ''Fullmetal Alchemist Brotherhood Specials'' 25) ''...''
   \<and> length ''Bleach'' \<le> 25
   \<and> shorten_anime_name ''Bleach'' 25 = ''Bleach''"
  using C7_shorten_anime_name
    [of "''Fullmetal Alchemist Brotherhood Specials''" "''Bleach''"]
  by (simp add: strip_def lstrip_def rstrip_def isspace_def endswith_def startswith_def)

section \<open>Properties of the metadata enrichment\<close>














section \<open>Properties of the sign-subtitle filter\<close>

lemma dialogue_not_events_heading:
  "startswith line ''Dialogue:'' \<Longrightarrow> \<not> startswith line ''[Events]''"
  by (cases line) (auto simp: startswith_def)

lemma step_dialogue:
  assumes "in_events st" and "startswith (strip raw) ''Dialogue:''"
  shows "extract_sign_subtitles_step st raw =
     (let line = strip raw; parts = split_comma 9 line in
         if length parts < 10 then st
         else
           (let style = strip (parts ! 3);
                name = strip (parts ! 4);
                effect = strip (parts ! 8);
                text = strip (parts ! 9)
            in if list_ex (\<lambda>keyword. contains keyword style) style_keywords
                  \<or> list_ex (\<lambda>keyword. contains keyword effect \<or> contains keyword text)
                         effect_text_keywords
                  \<or> contains actor_keyword name then
                 st\<lparr>sign_lines := sign_lines st @ [line]\<rparr>
               else st))"
  using assms dialogue_not_events_heading [OF assms(2)]
  by (simp add: extract_sign_subtitles_step_def Let_def)

text \<open>One pass of the loop on a ten-field dialogue line of the Events section.\<close>

lemma sign_filter_step:
  assumes "in_events st"
    and "line = strip raw"
    and "startswith line ''Dialogue:''"
    and "parts = split_comma 9 line"
    and "\<not> length parts < 10"
  shows "(strip (parts ! 3) = ''Text Date''
           \<or> contains (backslash # ''pos'') (strip (parts ! 8))
           \<or> contains (backslash # ''pos'') (strip (parts ! 9))
           \<or> strip (parts ! 4) = ''Sign - Narrator''
           \<longrightarrow> extract_sign_subtitles_step st raw = st\<lparr>sign_lines := sign_lines st @ [line]\<rparr>)
       \<and> (\<not> list_ex (\<lambda>keyword. contains keyword (strip (parts ! 3))) style_keywords
          \<and> \<not> list_ex (\<lambda>keyword. contains keyword (strip (parts ! 8))
                                  \<or> contains keyword (strip (parts ! 9))) effect_text_keywords
          \<and> \<not> contains actor_keyword (strip (parts ! 4))
           \<longrightarrow> extract_sign_subtitles_step st raw = st)"
proof -
  have td: "list_ex (\<lambda>keyword. contains keyword ''Text Date'') style_keywords"
    by (simp add: style_keywords_def startswith_def)
  have sn: "contains actor_keyword ''Sign - Narrator''"
    by (simp add: actor_keyword_def startswith_def)
  have pos: "contains (backslash # ''pos'') eff \<or> contains (backslash # ''pos'') body
      \<Longrightarrow> list_ex (\<lambda>keyword. contains keyword eff \<or> contains keyword body)
            effect_text_keywords" for eff body
    by (auto simp: effect_text_keywords_def)
  from assms have dlg: "startswith (strip raw) ''Dialogue:''" by simp
  note step = step_dialogue [OF assms(1) dlg]
  show ?thesis
    using assms(2,4,5) td sn pos [of "strip (parts ! 8)" "strip (parts ! 9)"]
    by (auto simp: step Let_def)
qed

lemma loop_split:
  "extract_sign_subtitles_loop (pre @ raw # post)
     = foldl extract_sign_subtitles_step
         (extract_sign_subtitles_step (extract_sign_subtitles_loop pre) raw) post"
  by (simp add: extract_sign_subtitles_loop_def)

lemma loop_skip:
  assumes "extract_sign_subtitles_step (extract_sign_subtitles_loop pre) raw
             = extract_sign_subtitles_loop pre"
  shows "extract_sign_subtitles_loop (pre @ raw # post) = extract_sign_subtitles_loop (pre @ post)"
  using assms by (simp add: extract_sign_subtitles_loop_def)

lemma step_sign_lines_grow:
  "sign_lines (extract_sign_subtitles_step st raw) = sign_lines st
   \<or> sign_lines (extract_sign_subtitles_step st raw) = sign_lines st @ [strip raw]"
  by (simp add: extract_sign_subtitles_step_def Let_def)

lemma foldl_sign_lines_grow:
  "\<exists>rest. sign_lines (foldl extract_sign_subtitles_step st lines) = sign_lines st @ rest"
proof (induction lines arbitrary: st)
  case Nil
  then show ?case by simp
next
  case (Cons raw lines)
  from Cons.IH [of "extract_sign_subtitles_step st raw"]
  obtain rest where
    "sign_lines (foldl extract_sign_subtitles_step (extract_sign_subtitles_step st raw) lines)
       = sign_lines (extract_sign_subtitles_step st raw) @ rest"
    by blast
  with step_sign_lines_grow [of st raw] show ?case
    by auto
qed

lemma rebuilt_ass_cues:
  "sign_lines st \<noteq> [] \<Longrightarrow>
     rebuilt_ass st = join [newline] (header st) @ [newline] @ join [newline] (sign_lines st)"
  by (simp add: rebuilt_ass_def)

lemma extract_sign_subtitles_ok:
  "extract_sign_subtitles 0 (Inr lines) (Inr ())
     = Some (rebuilt_ass (extract_sign_subtitles_loop lines))"
  by (simp add: extract_sign_subtitles_def)

lemma extract_sign_subtitles_cong:
  "extract_sign_subtitles_loop a = extract_sign_subtitles_loop b \<Longrightarrow>
     extract_sign_subtitles rc (Inr a) wr = extract_sign_subtitles rc (Inr b) wr"
  by (cases wr) (simp_all add: extract_sign_subtitles_def)

text \<open>
  The flag \<open>in_events\<close> holds after a heading that starts with \<open>[Events]\<close> and any number
  of lines that do not start with a bracket: the lines of the Events section.
\<close>

lemma step_stays_in_events:
  "in_events st \<Longrightarrow> \<not> startswith (strip raw) ''['' \<Longrightarrow>
     in_events (extract_sign_subtitles_step st raw)"
  by (simp add: extract_sign_subtitles_step_def Let_def)

lemma foldl_stays_in_events:
  "in_events st \<Longrightarrow> list_all (\<lambda>raw. \<not> startswith (strip raw) ''['') lines \<Longrightarrow>
     in_events (foldl extract_sign_subtitles_step st lines)"
  by (induction lines arbitrary: st) (simp_all add: step_stays_in_events)

lemma in_events_section:
  assumes "startswith (strip heading) ''[Events]''"
    and "list_all (\<lambda>raw. \<not> startswith (strip raw) ''['') lines"
  shows "in_events (extract_sign_subtitles_loop (before @ heading # lines))"
proof -
  have "in_events (extract_sign_subtitles_step (extract_sign_subtitles_loop before) heading)"
    using assms(1) by (simp add: extract_sign_subtitles_step_def)
  from foldl_stays_in_events [OF this assms(2)] show ?thesis
    by (simp add: loop_split)
qed

text \<open>
  C5: take a subtitle file and, in its Events section, a line that starts with
  \<open>Dialogue:\<close> and splits into ten fields (a well-formed cue).  If the style of the cue
  is \<open>Text Date\<close>, or its effect or its text contains \<open>\pos\<close>, or its actor name is
  \<open>Sign - Narrator\<close>, the cue is kept: it follows the cues kept before it in the list of
  kept cues, and the text that \<open>extract_sign_subtitles\<close> writes to the subtitle file
  holds it as a line after the header.  If the style holds no style keyword, the effect
  and the text hold no formatting token and the actor name does not hold \<open>Sign\<close>, the cue
  is dropped: the filter ends in the same state, and writes the same file, as for the
  input without that line.
\<close>

theorem C5_sign_filter:
  assumes "in_events (extract_sign_subtitles_loop pre)"
    and "line = strip raw"
    and "startswith line ''Dialogue:''"
    and "parts = split_comma 9 line"
    and "\<not> length parts < 10"
  shows "(strip (parts ! 3) = ''Text Date''
           \<or> contains (backslash # ''pos'') (strip (parts ! 8))
           \<or> contains (backslash # ''pos'') (strip (parts ! 9))
           \<or> strip (parts ! 4) = ''Sign - Narrator''
          \<longrightarrow> (\<exists>rest.
                 sign_lines (extract_sign_subtitles_loop (pre @ raw # post))
                   = sign_lines (extract_sign_subtitles_loop pre) @ line # rest
               \<and> extract_sign_subtitles 0 (Inr (pre @ raw # post)) (Inr ())
                   = Some (join [newline] (header (extract_sign_subtitles_loop (pre @ raw # post)))
                           @ [newline]
                           @ join [newline]
                               (sign_lines (extract_sign_subtitles_loop pre) @ line # rest))))
       \<and> (\<not> list_ex (\<lambda>keyword. contains keyword (strip (parts ! 3))) style_keywords
          \<and> \<not> list_ex (\<lambda>keyword. contains keyword (strip (parts ! 8))
                                  \<or> contains keyword (strip (parts ! 9))) effect_text_keywords
          \<and> \<not> contains actor_keyword (strip (parts ! 4))
          \<longrightarrow> extract_sign_subtitles_loop (pre @ raw # post)
                = extract_sign_subtitles_loop (pre @ post)
              \<and> extract_sign_subtitles rc (Inr (pre @ raw # post)) wr
                = extract_sign_subtitles rc (Inr (pre @ post)) wr)"
proof (intro conjI impI)
  let ?st = "extract_sign_subtitles_loop pre"
  let ?final = "extract_sign_subtitles_loop (pre @ raw # post)"
  note step = sign_filter_step [OF assms]
  assume "strip (parts ! 3) = ''Text Date''
           \<or> contains (backslash # ''pos'') (strip (parts ! 8))
           \<or> contains (backslash # ''pos'') (strip (parts ! 9))
           \<or> strip (parts ! 4) = ''Sign - Narrator''"
  with step have kept:
    "extract_sign_subtitles_step ?st raw = ?st\<lparr>sign_lines := sign_lines ?st @ [line]\<rparr>"
    by blast
  from foldl_sign_lines_grow [of "extract_sign_subtitles_step ?st raw" post]
  obtain rest where rest: "sign_lines ?final = sign_lines ?st @ line # rest"
    by (auto simp: loop_split kept)
  then have "sign_lines ?final \<noteq> []" by simp
  from rebuilt_ass_cues [OF this] rest
  have "extract_sign_subtitles 0 (Inr (pre @ raw # post)) (Inr ())
          = Some (join [newline] (header ?final) @ [newline]
                  @ join [newline] (sign_lines ?st @ line # rest))"
    by (simp add: extract_sign_subtitles_ok)
  with rest show "\<exists>rest. sign_lines ?final = sign_lines ?st @ line # rest
      \<and> extract_sign_subtitles 0 (Inr (pre @ raw # post)) (Inr ())
          = Some (join [newline] (header ?final) @ [newline]
                  @ join [newline] (sign_lines ?st @ line # rest))"
    by blast
next
  assume plain: "\<not> list_ex (\<lambda>keyword. contains keyword (strip (parts ! 3))) style_keywords
          \<and> \<not> list_ex (\<lambda>keyword. contains keyword (strip (parts ! 8))
                                  \<or> contains keyword (strip (parts ! 9))) effect_text_keywords
          \<and> \<not> contains actor_keyword (strip (parts ! 4))"
  with sign_filter_step [OF assms] have
    "extract_sign_subtitles_step (extract_sign_subtitles_loop pre) raw
       = extract_sign_subtitles_loop pre"
    by blast
  from loop_skip [OF this]
  show same: "extract_sign_subtitles_loop (pre @ raw # post)
      = extract_sign_subtitles_loop (pre @ post)" .
  from extract_sign_subtitles_cong [OF same]
  show "extract_sign_subtitles rc (Inr (pre @ raw # post)) wr
      = extract_sign_subtitles rc (Inr (pre @ post)) wr" .
qed

lemmas string_eval = strip_def lstrip_def rstrip_def isspace_def startswith_def
  backslash_def newline_def

text \<open>
  C5 on a file with a cue for each of the three rules and a plain cue: the three are
  written after the header, the plain one is not.
\<close>

theorem C5_sign_filter_witness:
  "in_events (extract_sign_subtitles_loop [''[Script Info]'' @ [newline], ''[Events]'' @ [newline]])
   \<and> startswith (strip (cue_text_date @ [newline])) ''Dialogue:''
   \<and> \<not> length (split_comma 9 (strip (cue_text_date @ [newline]))) < 10
   \<and> strip (split_comma 9 (strip (cue_text_date @ [newline])) ! 3) = ''Text Date''
   \<and> contains (backslash # ''pos'') (strip (split_comma 9 (strip (cue_pos @ [newline])) ! 9))
   \<and> strip (split_comma 9 (strip (cue_narrator @ [newline])) ! 4) = ''Sign - Narrator''
   \<and> sign_lines (extract_sign_subtitles_loop ass_with_signs)
       = [cue_text_date, cue_pos, cue_narrator]
   \<and> extract_sign_subtitles 0 (Inr ass_with_signs) (Inr ())
       = Some (''[Script Info]'' @ [newline] @ ''[Events]'' @ [newline] @ events_format
               @ [newline] @ cue_text_date @ [newline] @ cue_pos @ [newline] @ cue_narrator)
   \<and> extract_sign_subtitles 0 (Inr ass_with_signs) (Inr ())
       = extract_sign_subtitles 0
           (Inr [''[Script Info]'' @ [newline], ''[Events]'' @ [newline],
                 cue_text_date @ [newline], cue_pos @ [newline], cue_narrator @ [newline]])
           (Inr ())"
proof -
  let ?si = "''[Script Info]'' @ [newline]" and ?ev = "''[Events]'' @ [newline]"
  let ?td = "cue_text_date @ [newline]" and ?pl = "cue_plain @ [newline]"
  let ?po = "cue_pos @ [newline]" and ?na = "cue_narrator @ [newline]"
  have parts_of: "ass_with_signs = [?si, ?ev] @ ?td # [?pl, ?po, ?na]"
    "ass_with_signs = [?si, ?ev, ?td] @ ?pl # [?po, ?na]"
    "ass_with_signs = [?si, ?ev, ?td, ?pl] @ ?po # [?na]"
    "ass_with_signs = [?si, ?ev, ?td, ?pl, ?po] @ ?na # []"
    by (simp_all add: ass_with_signs_def)
  have ev: "in_events (extract_sign_subtitles_loop [?si, ?ev])"
    "in_events (extract_sign_subtitles_loop [?si, ?ev, ?td])"
    "in_events (extract_sign_subtitles_loop [?si, ?ev, ?td, ?pl])"
    "in_events (extract_sign_subtitles_loop [?si, ?ev, ?td, ?pl, ?po])"
    by code_simp+
  have d: "startswith (strip ?td) ''Dialogue:''" "startswith (strip ?pl) ''Dialogue:''"
    "startswith (strip ?po) ''Dialogue:''" "startswith (strip ?na) ''Dialogue:''"
    by code_simp+
  have n: "\<not> length (split_comma 9 (strip ?td)) < 10" "\<not> length (split_comma 9 (strip ?pl)) < 10"
    "\<not> length (split_comma 9 (strip ?po)) < 10" "\<not> length (split_comma 9 (strip ?na)) < 10"
    by code_simp+
  have k: "strip (split_comma 9 (strip ?td) ! 3) = ''Text Date''"
    "contains (backslash # ''pos'') (strip (split_comma 9 (strip ?po) ! 9))"
    "strip (split_comma 9 (strip ?na) ! 4) = ''Sign - Narrator''"
    by code_simp+
  have p: "\<not> list_ex (\<lambda>keyword. contains keyword (strip (split_comma 9 (strip ?pl) ! 3)))
               style_keywords"
    "\<not> list_ex (\<lambda>keyword. contains keyword (strip (split_comma 9 (strip ?pl) ! 8))
                        \<or> contains keyword (strip (split_comma 9 (strip ?pl) ! 9)))
               effect_text_keywords"
    "\<not> contains actor_keyword (strip (split_comma 9 (strip ?pl) ! 4))"
    by code_simp+
  have cues: "sign_lines (extract_sign_subtitles_loop ass_with_signs)
       = [cue_text_date, cue_pos, cue_narrator]"
    by code_simp
  have out: "extract_sign_subtitles 0 (Inr ass_with_signs) (Inr ())
       = Some (''[Script Info]'' @ [newline] @ ''[Events]'' @ [newline] @ events_format
               @ [newline] @ cue_text_date @ [newline] @ cue_pos @ [newline] @ cue_narrator)"
    by code_simp
  from C5_sign_filter [OF ev(2) refl d(2) refl n(2), of "[?po, ?na]" 0 "Inr ()"] p
  have dropped: "extract_sign_subtitles 0 (Inr ass_with_signs) (Inr ())
       = extract_sign_subtitles 0 (Inr [?si, ?ev, ?td, ?po, ?na]) (Inr ())"
    by (simp add: parts_of(2))
  from C5_sign_filter [OF ev(1) refl d(1) refl n(1), of "[?pl, ?po, ?na]"] k(1)
  have "\<exists>rest. sign_lines (extract_sign_subtitles_loop ass_with_signs)
          = sign_lines (extract_sign_subtitles_loop [?si, ?ev]) @ strip ?td # rest"
    unfolding parts_of(1) by blast
  with ev(1) d(1) n(1) k cues out dropped show ?thesis
    by simp
qed






lemma getsize_pos: "0 < getsize s \<longleftrightarrow> s \<noteq> []"
  by (cases s) (simp_all add: getsize_def)

lemma sign_subtitle_stage_discards:
  "sign_subtitle_stage 0 (Inr lines) (Inr ()) = Discarded
     \<longleftrightarrow> rebuilt_ass (extract_sign_subtitles_loop lines) = []"
  by (simp add: sign_subtitle_stage_def extract_sign_subtitles_def getsize_pos)

text \<open>
  C4 says that an extraction whose filtered cue set is empty is discarded and not merged.
  The code tests the size of the rebuilt file, which holds the header lines as well: for
  a file with a script-info heading, an Events heading and one plain dialogue line, no
  cue is kept, the rebuilt file holds the two headings and the format line, and the merge
  is attempted.
\<close>

theorem C4_header_only_track_is_merged:
  "sign_lines (extract_sign_subtitles_loop ass_without_signs) = []
   \<and> extract_sign_subtitles 0 (Inr ass_without_signs) (Inr ())
       = Some (''[Script Info]'' @ [newline] @ ''[Events]'' @ [newline] @ events_format)
   \<and> sign_subtitle_stage 0 (Inr ass_without_signs) (Inr ()) = Merge_attempted"
proof -
  have p4: "split_comma 9 cue_plain =
     [''Dialogue: 0'', ''0:00:01.00'', ''0:00:03.00'', ''Default'', ''Alice'', ''0'',
      ''0'', ''0'', [], ''Good morning.'']"
    by (simp add: cue_plain_def)
  have s1: "strip (''[Script Info]'' @ [newline]) = ''[Script Info]''"
    by (simp add: string_eval)
  have s2: "strip (''[Events]'' @ [newline]) = ''[Events]''"
    by (simp add: string_eval)
  have s3: "strip (cue_plain @ [newline]) = cue_plain"
    by (simp add: cue_plain_def string_eval)
  have d: "startswith cue_plain ''Dialogue:''" "\<not> startswith cue_plain ''[Events]''"
    by (simp_all add: cue_plain_def startswith_def)
  have st1: "extract_sign_subtitles_step \<lparr>in_events = False, header = [], sign_lines = []\<rparr>
               (''[Script Info]'' @ [newline])
             = \<lparr>in_events = False, header = [''[Script Info]''], sign_lines = []\<rparr>"
    unfolding extract_sign_subtitles_step_def s1 by (simp add: startswith_def)
  have st2: "extract_sign_subtitles_step
               \<lparr>in_events = False, header = [''[Script Info]''], sign_lines = []\<rparr>
               (''[Events]'' @ [newline])
             = \<lparr>in_events = True, header = [''[Script Info]'', ''[Events]'', events_format],
                sign_lines = []\<rparr>"
    unfolding extract_sign_subtitles_step_def s2 by (simp add: startswith_def)
  have st3: "extract_sign_subtitles_step
               \<lparr>in_events = True, header = [''[Script Info]'', ''[Events]'', events_format],
                sign_lines = []\<rparr> (cue_plain @ [newline])
             = \<lparr>in_events = True, header = [''[Script Info]'', ''[Events]'', events_format],
                sign_lines = []\<rparr>"
    unfolding extract_sign_subtitles_step_def s3 Let_def p4 using d
    by (simp add: string_eval style_keywords_def effect_text_keywords_def actor_keyword_def)
  have loop: "extract_sign_subtitles_loop ass_without_signs
      = \<lparr>in_events = True, header = [''[Script Info]'', ''[Events]'', events_format],
                sign_lines = []\<rparr>"
    by (simp only: extract_sign_subtitles_loop_def ass_without_signs_def foldl.simps st1 st2 st3)
  show ?thesis
    by (simp add: loop sign_subtitle_stage_def extract_sign_subtitles_def rebuilt_ass_def
        getsize_pos)
qed

section \<open>Properties of progress reporting, status edits and the upload gate\<close>

lemma call_answer_progress:
  assumes "pending (uploads t i) = None"
  shows "last_update_time (answer i reply (call i s t)) = snd (progress (last_update_time t) s reply)"
  using assms
  by (auto simp: call_def answer_def progress_def progress_end_def
      split: progress_start.splits sum.splits)

lemma spaced_snoc:
  assumes "sorted_wrt (\<lambda>a b. (2::real) \<le> b - a) xs"
    and "\<forall>x\<in>set xs. 2 \<le> x - g"
    and "2 \<le> c - (if xs = [] then g else last xs)"
  shows "sorted_wrt (\<lambda>a b. 2 \<le> b - a) (xs @ [c]) \<and> (\<forall>x\<in>set (xs @ [c]). 2 \<le> x - g)"
proof (cases "xs = []")
  case True
  with assms show ?thesis by simp
next
  case False
  have le: "x \<le> last xs" if "x \<in> set xs" for x
  proof -
    from that obtain k where k: "k < length xs" "xs ! k = x"
      by (auto simp: in_set_conv_nth)
    show ?thesis
    proof (cases "k = length xs - 1")
      case True
      with k False show ?thesis by (simp add: last_conv_nth)
    next
      case False
      with k have "k < length xs - 1" by simp
      with assms(1) k have "2 \<le> xs ! (length xs - 1) - xs ! k"
        by (auto simp: sorted_wrt_iff_nth_less)
      with k \<open>xs \<noteq> []\<close> show ?thesis by (simp add: last_conv_nth)
    qed
  qed
  from False have "last xs \<in> set xs" by simp
  with assms(2) have "2 \<le> last xs - g" by blast
  moreover from assms(3) False have c: "2 \<le> c - last xs" by simp
  moreover have "2 \<le> c - x" if "x \<in> set xs" for x
    using le [OF that] c by linarith
  ultimately show ?thesis
    using assms(1,2) by (auto simp: sorted_wrt_append)
qed

lemma alone_call: "alone i g t \<Longrightarrow> alone i g (call i s t)"
  by (auto simp: alone_def call_def progress_begin_def
      split: option.splits progress_start.splits if_splits sum.splits)

lemma alone_answer:
  assumes "alone i g t"
  shows "alone i g (answer i reply t)"
proof (cases "pending (uploads t i)")
  case None
  with assms show ?thesis by (simp add: answer_def)
next
  case (Some p)
  obtain s status where p: "p = (s, status)" by (cases p)
  from assms Some p have passed: "2 \<le> current_time s - last_update_time t"
    by (simp add: alone_def)
  show ?thesis
  proof (cases reply)
    case (Inr u)
    from assms passed have
      "sorted_wrt (\<lambda>a b. 2 \<le> b - a) (stamps (uploads t i) @ [current_time s])
       \<and> (\<forall>x\<in>set (stamps (uploads t i) @ [current_time s]). 2 \<le> x - g)"
      by (intro spaced_snoc) (simp_all add: alone_def)
    with Some p Inr show ?thesis
      by (simp add: alone_def answer_def progress_end_def)
  next
    case (Inl e)
    with assms Some p show ?thesis
      by (simp add: alone_def answer_def progress_end_def)
  qed
qed

lemma alone_events:
  "alone i g t \<Longrightarrow> only_upload i events \<Longrightarrow> alone i g (progress_events events t)"
proof (induction events t rule: progress_events.induct)
  case (1 t)
  then show ?case by simp
next
  case (2 j s events t)
  then show ?case by (simp add: alone_call)
next
  case (3 j reply events t)
  then show ?case by (simp add: alone_answer)
qed

lemmas progress_eval = progress_def progress_begin_def progress_end_def progress_status_def
  truediv_def py_int_def

lemmas events_eval = call_def answer_def idle_def sample_at_def

text \<open>
  C2, as the claim states it, fails twice.  Nothing resets \<open>last_update_time\<close> when a
  transfer starts: the same second transfer, whose only sample comes half a second
  after its start, emits nothing when an earlier transfer emitted at time 100, and emits
  when no earlier transfer did.  And the calls of \<open>progress\<close> of two transfers that
  overlap interleave at the \<open>await\<close>: a call of the other transfer that passed the test
  at time 99 writes 99 to the global after this transfer has emitted at time 100, and
  this transfer emits again at time 101.5.
\<close>

theorem C2_gate_carried_over_counterexample:
  "stamps (uploads (progress_events
       [Call 0 (sample_at 98 100), Answer 0 (Inr ()),
        Call 1 (sample_at 101 101.5), Answer 1 (Inr ())] (idle 0)) 1) = []
   \<and> stamps (uploads (progress_events
       [Call 1 (sample_at 101 101.5), Answer 1 (Inr ())] (idle 0)) 1) = [101.5]
   \<and> stamps (uploads (progress_events
       [Call 1 (sample_at 95 99), Call 0 (sample_at 98 100),
        Answer 0 (Inr ()), Answer 1 (Inr ()),
        Call 0 (sample_at 98 101.5), Answer 0 (Inr ())] (idle 90)) 0) = [100, 101.5]"
  by (simp add: events_eval progress_eval)

text \<open>
  C2 (amended): a transfer during which no call of \<open>progress\<close> of another transfer runs
  never emits two status texts less than 2 seconds apart, and each text it emits comes
  at least 2 seconds after the value that \<open>last_update_time\<close> had when the transfer
  started.  That value is not reset at the start of a transfer: it is the value left by
  the module load or by the last emission before, and the transfer leaves its own last
  emission time behind.
\<close>

theorem C2_progress_throttle:
  assumes "only_upload i events"
    and "pending (uploads t i) = None"
    and "stamps (uploads t i) = []"
  shows "sorted_wrt (\<lambda>a b. 2 \<le> b - a) (stamps (uploads (progress_events events t) i))
       \<and> (\<forall>x\<in>set (stamps (uploads (progress_events events t) i)). 2 \<le> x - last_update_time t)
       \<and> last_update_time (progress_events events t)
           = (if stamps (uploads (progress_events events t) i) = [] then last_update_time t
              else last (stamps (uploads (progress_events events t) i)))"
proof -
  from assms(2,3) have "alone i (last_update_time t) t"
    by (simp add: alone_def)
  from alone_events [OF this assms(1)] show ?thesis
    by (simp add: alone_def)
qed

theorem C2_progress_throttle_witness:
  "only_upload 0
     [Call 0 (sample_at 10 11), Answer 0 (Inr ()),
      Call 0 (sample_at 10 12),
      Call 0 (sample_at 10 13.5), Answer 0 (Inr ()),
      Call 0 (sample_at 10 16), Answer 0 (Inl MessageNotModified),
      Call 0 (sample_at 10 16.5), Answer 0 (Inr ())]
   \<and> pending (uploads (idle 0) 0) = None
   \<and> stamps (uploads (idle 0) 0) = []
   \<and> stamps (uploads (progress_events
        [Call 0 (sample_at 10 11), Answer 0 (Inr ()),
         Call 0 (sample_at 10 12),
         Call 0 (sample_at 10 13.5), Answer 0 (Inr ()),
         Call 0 (sample_at 10 16), Answer 0 (Inl MessageNotModified),
         Call 0 (sample_at 10 16.5), Answer 0 (Inr ())] (idle 0)) 0) = [11, 13.5, 16.5]
   \<and> sorted_wrt (\<lambda>a b. 2 \<le> b - a) [11, 13.5, 16.5 :: real]
   \<and> last_update_time (progress_events
        [Call 0 (sample_at 10 11), Answer 0 (Inr ()),
         Call 0 (sample_at 10 12),
         Call 0 (sample_at 10 13.5), Answer 0 (Inr ()),
         Call 0 (sample_at 10 16), Answer 0 (Inl MessageNotModified),
         Call 0 (sample_at 10 16.5), Answer 0 (Inr ())] (idle 0)) = 16.5"
proof -
  let ?events = "[Call 0 (sample_at 10 11), Answer 0 (Inr ()),
      Call 0 (sample_at 10 12),
      Call 0 (sample_at 10 13.5), Answer 0 (Inr ()),
      Call 0 (sample_at 10 16), Answer 0 (Inl MessageNotModified),
      Call 0 (sample_at 10 16.5), Answer 0 (Inr ())]"
  have o: "only_upload 0 ?events" by simp
  have p: "pending (uploads (idle 0) 0) = None" by (simp add: idle_def)
  have s: "stamps (uploads (idle 0) 0) = []" by (simp add: idle_def)
  have r: "stamps (uploads (progress_events ?events (idle 0)) 0) = [11, 13.5, 16.5]"
    by (simp add: events_eval progress_eval)
  from C2_progress_throttle [OF o p s] r o p s show ?thesis
    by (simp add: idle_def)
qed

lemma progress_status_guards:
  assumes "total s \<noteq> 0"
  shows "\<exists>status. progress_status s = Inr status"
  using assms by (simp add: progress_status_def truediv_def Let_def)

text \<open>
  C8 says that no progress sample makes the computation divide by zero.  The divisions
  for the speed and the remaining time are guarded; the two by \<open>total\<close> are not, and a
  sample with \<open>total = 0\<close> raises \<open>ZeroDivisionError\<close>, which \<open>progress\<close> does not catch.
\<close>

theorem C8_zero_total_raises:
  "progress_status \<lparr>current = 0, total = 0, start_time = 5, current_time = 10\<rparr>
     = Inl ZeroDivisionError
   \<and> progress 0 \<lparr>current = 0, total = 0, start_time = 5, current_time = 10\<rparr> (Inr ())
     = (Raised ZeroDivisionError, 0)"
  by (simp add: progress_eval)

lemma safe_edit_message_identical:
  "message_text msg = Some new_text \<Longrightarrow>
     safe_edit_message msg new_text first second = ([], Inr ())"
  by (simp add: safe_edit_message_def)

lemma bot_safe_edit_message_always_edits:
  "\<exists>calls. fst (bot_safe_edit_message msg new_text first second) = Edit_text new_text # calls"
  by (auto simp: bot_safe_edit_message_def split: sum.splits exn.splits)

text \<open>
  C9 says that every variant of the adapter makes no network call when the text is the
  one the message already shows.  The variant of ki.py (like those of rc.py, rot.py and
  kot.py) returns at once; the variant of bot.py has no such test and calls \<open>edit_text\<close>,
  and the channel's \<open>MessageNotModified\<close> leaves the function.
\<close>

theorem C9_bot_variant_edits_identical_text:
  "bot_safe_edit_message \<lparr>message_text = Some ''Uploading to Telegram...''\<rparr>
       ''Uploading to Telegram...'' (Inl MessageNotModified) (Inr ())
     = ([Edit_text ''Uploading to Telegram...''], Inl MessageNotModified)
   \<and> safe_edit_message \<lparr>message_text = Some ''Uploading to Telegram...''\<rparr>
       ''Uploading to Telegram...'' (Inl MessageNotModified) (Inr ())
     = ([], Inr ())"
  by (simp add: bot_safe_edit_message_def safe_edit_message_def)

text \<open>
  C6: a file of \<open>2 * 1024^3 + 1\<close> bytes is refused before \<open>send_document\<close> is called; a
  file of \<open>2 * 1024^3\<close> bytes is sent; and whenever the upload block reaches the size
  test (the notice that the upload starts went through and the size \<open>n\<close> of the file was
  read), \<open>send_document\<close> is called if and only if \<open>n \<le> 2 * 1024^3\<close>.
\<close>

theorem C6_upload_size_gate:
  "upload (calm_world (2 * 1024 ^ 3 + 1)) = [Announce_uploading, Get_size, Announce_size_limit]
   \<and> upload (calm_world (2 * 1024 ^ 3))
       = [Announce_uploading, Get_size, Send_document, Announce_complete, Remove_file]
   \<and> (uploading_notice w = Inr () \<and> getsize_result w = Inr n
        \<longrightarrow> (Send_document \<in> set (upload w) \<longleftrightarrow> n \<le> 2 * 1024 ^ 3))
   \<and> (Send_document \<in> set (upload w)
        \<longleftrightarrow> (\<exists>n. uploading_notice w = Inr () \<and> getsize_result w = Inr n \<and> n \<le> 2 * 1024 ^ 3))"
proof (intro conjI impI)
  show "upload (calm_world (2 * 1024 ^ 3 + 1))
      = [Announce_uploading, Get_size, Announce_size_limit]"
    by (simp add: upload_def calm_world_def)
  show "upload (calm_world (2 * 1024 ^ 3))
       = [Announce_uploading, Get_size, Send_document, Announce_complete, Remove_file]"
    by (simp add: upload_def calm_world_def)
  show "Send_document \<in> set (upload w) \<longleftrightarrow> n \<le> 2 * 1024 ^ 3"
    if "uploading_notice w = Inr () \<and> getsize_result w = Inr n"
    using that by (auto simp: upload_def split: sum.splits)
  show "Send_document \<in> set (upload w)
        \<longleftrightarrow> (\<exists>n. uploading_notice w = Inr () \<and> getsize_result w = Inr n \<and> n \<le> 2 * 1024 ^ 3)"
    by (auto simp: upload_def split: sum.splits if_splits)
qed

theorem C6_upload_size_gate_witness:
  "uploading_notice (calm_world 5000) = Inr () \<and> getsize_result (calm_world 5000) = Inr 5000
   \<and> (5000::nat) \<le> 2 * 1024 ^ 3
   \<and> Send_document \<in> set (upload (calm_world 5000))
   \<and> uploading_notice (calm_world 3000000000) = Inr ()
   \<and> getsize_result (calm_world 3000000000) = Inr 3000000000
   \<and> \<not> (3000000000::nat) \<le> 2 * 1024 ^ 3
   \<and> Send_document \<notin> set (upload (calm_world 3000000000))"
proof -
  have a: "uploading_notice (calm_world 5000) = Inr ()
        \<and> getsize_result (calm_world 5000) = Inr 5000"
    by (simp add: calm_world_def)
  have b: "uploading_notice (calm_world 3000000000) = Inr ()
        \<and> getsize_result (calm_world 3000000000) = Inr 3000000000"
    by (simp add: calm_world_def)
  from C6_upload_size_gate [of "calm_world 5000" 5000] a
  have 1: "Send_document \<in> set (upload (calm_world 5000))"
    by simp
  from C6_upload_size_gate [of "calm_world 3000000000" 3000000000] b
  have 2: "Send_document \<notin> set (upload (calm_world 3000000000))"
    by simp
  from a b 1 2 show ?thesis by simp
qed

section \<open>Properties of the task queue\<close>

lemma submit_while_running:
  "current_task s = Some t \<Longrightarrow> submit task s = s\<lparr>task_queue := task_queue s @ [task]\<rparr>"
  by (simp add: submit_def Let_def)

lemma submit_while_idle:
  "current_task s = None \<Longrightarrow>
     submit task s = s\<lparr>task_queue := task_queue s @ [task], drains := drains s @ [Not_started]\<rparr>"
  by (simp add: submit_def Let_def)

lemma running_active: "running ds = running (active ds)"
  by (induction ds rule: running.induct) (simp_all add: active_def)

lemma active_member:
  "i < length ds \<Longrightarrow> ds ! i \<noteq> Finished \<Longrightarrow> ds ! i \<in> set (active ds)"
  by (simp add: active_def)

lemma active_update:
  assumes "i < length ds" and "active ds = [ds ! i]"
  shows "active (ds[i := d]) = active [d]"
proof -
  from assms(1) have split: "ds = take i ds @ ds ! i # drop (Suc i) ds"
    by (rule id_take_nth_drop)
  from assms(2) have "ds ! i \<in> set (active ds)"
    by simp
  then have ne: "ds ! i \<noteq> Finished"
    by (simp add: active_def)
  have "active ds = active (take i ds) @ ds ! i # active (drop (Suc i) ds)"
    using ne by (subst split) (simp add: active_def)
  with assms(2) have "active (take i ds) = []" "active (drop (Suc i) ds) = []"
    by (simp_all add: append_eq_Cons_conv)
  moreover from assms(1) have "ds[i := d] = take i ds @ d # drop (Suc i) ds"
    by (rule upd_conv_take_nth_drop)
  ultimately show ?thesis
    by (simp add: active_def)
qed

lemma single_flight_submit:
  assumes "single_flight s h" and "Not_started \<notin> set (drains s)"
  shows "single_flight (submit task s) (h @ [task])"
proof -
  have "set (active (drains s)) \<subseteq> set (drains s)"
    by (simp add: active_def)
  with assms(2) have "active (drains s) \<noteq> [Not_started]"
    by auto
  with assms(1) show ?thesis
    by (auto simp: single_flight_def submit_def Let_def active_def)
qed

lemma single_flight_pop_next:
  assumes "i < length (drains s)" and "active (drains s) = [drains s ! i]"
    and "current_task s = None" and "completed s @ task_queue s = h"
  shows "single_flight (pop_next i s) h"
proof (cases "task_queue s")
  case Nil
  with assms show ?thesis
    using active_update [OF assms(1,2), of Finished]
    by (simp add: single_flight_def pop_next_def) (simp add: active_def)
next
  case (Cons task queue)
  with assms show ?thesis
    using active_update [OF assms(1,2), of "Awaiting task"]
    by (simp add: single_flight_def pop_next_def) (simp add: active_def)
qed

lemma single_flight_resume:
  assumes "single_flight s h" and "resume i s = Some s'"
  shows "single_flight s' h"
proof -
  from assms(2) have i: "i < length (drains s)" and nf: "drains s ! i \<noteq> Finished"
    by (auto simp: resume_def split: if_splits drain.splits)
  from active_member [OF i nf] assms(1) have one: "active (drains s) = [drains s ! i]"
    by (auto simp: single_flight_def)
  show ?thesis
  proof (cases "drains s ! i")
    case Not_started
    with one assms(1) have "current_task s = None" "completed s @ task_queue s = h"
      by (auto simp: single_flight_def)
    from single_flight_pop_next [OF i one this] assms(2) i Not_started show ?thesis
      by (simp add: resume_def)
  next
    case (Awaiting task)
    with one assms(1) have h: "completed s @ task # task_queue s = h"
      by (auto simp: single_flight_def)
    let ?s = "s\<lparr>completed := completed s @ [task], current_task := None\<rparr>"
    have "single_flight (pop_next i ?s) h"
      using i one h by (intro single_flight_pop_next) simp_all
    with assms(2) i Awaiting show ?thesis
      by (simp add: resume_def)
  next
    case Finished
    with nf show ?thesis by simp
  qed
qed

lemma single_flight_run:
  "single_flight s h \<Longrightarrow> well_timed events s \<Longrightarrow> run events s = Some s' \<Longrightarrow>
     single_flight s' (h @ submitted events)"
proof (induction events s arbitrary: h rule: run.induct)
  case (1 s)
  then show ?case by simp
next
  case (2 task events s)
  from "2.prems" have "single_flight (submit task s) (h @ [task])"
    by (simp add: single_flight_submit)
  from "2.IH" [OF this] "2.prems" show ?case
    by simp
next
  case (3 i events s)
  from "3.prems" obtain s1 where r: "resume i s = Some s1"
    by (auto split: option.splits)
  with "3.prems" have "single_flight s1 h"
    by (simp add: single_flight_resume)
  from "3.IH" [OF r this] "3.prems" r show ?case
    by simp
qed

lemma single_flight_fifo:
  assumes "single_flight s h"
  shows "length (running (drains s)) \<le> 1
       \<and> length (active (drains s)) \<le> 1
       \<and> completed s @ running (drains s) @ task_queue s = h"
  using assms
  by (subst (1 2) running_active) (auto simp: single_flight_def)

text \<open>
  What the queue does guarantee: in a well-timed schedule there is at most one active
  drain loop and at most one running task, and the completed tasks, the running task and
  the pending tasks make up, in this order, the list of the submitted tasks.
\<close>

lemma well_timed_single_flight:
  assumes "well_timed events initial" and "run events initial = Some s"
  shows "length (running (drains s)) \<le> 1
       \<and> length (active (drains s)) \<le> 1
       \<and> completed s @ running (drains s) @ task_queue s = submitted events"
proof -
  have "single_flight (initial :: 'a scheduler) []"
    by (simp add: single_flight_def initial_def active_def)
  from single_flight_run [OF this assms] show ?thesis
    using single_flight_fifo by fastforce
qed

lemma well_timed_example:
  "well_timed [Submit ''A'', Resume 0, Submit ''B'', Resume 0, Resume 0] initial
   \<and> \<not> well_timed [Submit ''A'', Submit ''B'', Resume 0, Resume 1] initial"
  by (simp add: initial_def submit_def pop_next_def resume_def Let_def)

lemmas queue_eval = initial_def submit_def pop_next_def resume_def Let_def

text \<open>
  C1 says that tasks complete in the order of their submission, that at most one task
  runs at any instant, and that a submission never starts a second drain loop.  The
  guard of a submission is \<open>current_task\<close>, which only the drain loop sets, at its first
  step.  Two submissions that arrive before the first drain loop has taken that step
  each create a drain loop; each of the two then pops and awaits a task, so that two
  tasks run at once, and the task submitted second may complete first.
\<close>

theorem C1_second_drain_started:
  "run [Submit ''A'', Submit ''B'', Resume 0, Resume 1] initial
     = Some \<lparr>task_queue = [], current_task = Some ''B'',
             drains = [Awaiting ''A'', Awaiting ''B''], completed = []\<rparr>
   \<and> running [Awaiting ''A'', Awaiting ''B''] = [''A'', ''B'']
   \<and> run [Submit ''A'', Submit ''B'', Resume 0, Resume 1, Resume 1, Resume 0] initial
     = Some \<lparr>task_queue = [], current_task = None,
             drains = [Finished, Finished], completed = [''B'', ''A'']\<rparr>"
  by (simp add: queue_eval)

text \<open>
  When the drain loop takes its first step before the second submission, there is one
  loop and the tasks complete in order.
\<close>

lemma one_drain_loop_example:
  "run [Submit ''A'', Resume 0, Submit ''B'', Resume 0, Resume 0] initial
     = Some \<lparr>task_queue = [], current_task = None,
             drains = [Finished], completed = [''A'', ''B'']\<rparr>"
  by (simp add: queue_eval)

end
